theory Spec2Isabelle
  imports Complex_Main "HOL-Library.Word"
begin

section \<open>Pool-table detection by colour segmentation\<close>

text \<open>
  The program is \<^verbatim>\<open>src/cv/table_detector.py\<close>: a class \<^verbatim>\<open>TableDetector\<close> with two
  attributes set by its constructor and one method \<^verbatim>\<open>detect_table\<close>, which is a
  straight-line pipeline of calls into the OpenCV Python bindings followed by a selection
  among the contours found.

  The OpenCV routines are modelled by what they compute on the arrays the method gives
  them: colour conversion, range thresholding, dilation and erosion, and the polygon
  area. One routine stays abstract: the border following of \<^verbatim>\<open>cv2.findContours\<close>
  (called with \<^verbatim>\<open>RETR_EXTERNAL\<close> and \<^verbatim>\<open>CHAIN_APPROX_SIMPLE\<close>) is the argument
  \<open>findContours\<close> of the model, a function from the mask to the list of contours in the
  order of extraction, and every theorem holds for any function in its place.

  The method is modelled twice: as a function of the bounds and of the frame's content,
  \<open>detect_table\<close>, and statement by statement over a heap of objects,
  \<open>detect_table_run\<close>, where the arrays a call allocates and the ones it leaves alone
  are explicit. The second is shown to observe what the first computes.
\<close>

subsection \<open>Data\<close>

text \<open>
  A frame is a \<^verbatim>\<open>numpy\<close> array of unsigned bytes of shape (rows, columns, channels): a
  list of rows, each a list of pixels, each a list of channel values. A two-dimensional
  grey array has one channel per pixel. The hue/saturation/value image has three channels
  for every pixel, and a mask has one.
\<close>

type_synonym frame = "8 word list list list"
type_synonym hsv_image = "(8 word \<times> 8 word \<times> 8 word) list list"
type_synonym mask = "8 word list list"

text \<open>A contour is the sequence of the integer points \<open>(x, y)\<close> of a boundary.\<close>

type_synonym contour = "(int \<times> int) list"

text \<open>
  The exceptions the method can meet: the one OpenCV raises on an argument it rejects,
  \<^verbatim>\<open>cv2.error\<close>, and the one Python raises when \<^verbatim>\<open>self\<close> has not the attribute read.
\<close>

datatype error = cv2_error | AttributeError

text \<open>
  \<^verbatim>\<open>
  class TableDetector:
      def __init__(self):
          self.lower_green = np.array([35, 50, 50])
          self.upper_green = np.array([85, 255, 255])
  \<close>
\<close>

record TableDetector =
  lower_green :: "int \<times> int \<times> int"
  upper_green :: "int \<times> int \<times> int"

definition TableDetector_init :: TableDetector where
  "TableDetector_init = \<lparr>lower_green = (35, 50, 50), upper_green = (85, 255, 255)\<rparr>"

subsection \<open>Colour conversion\<close>

text \<open>
  \<^verbatim>\<open>cv2.cvtColor(frame, cv2.COLOR_BGR2HSV)\<close> on bytes. Each pixel is converted on its own,
  in integer arithmetic with a fixed point of 12 bits: the value is the largest of
  the three channels, the saturation is \<open>255 * (v - vmin) / v\<close> rounded, and the hue is
  the angle on the colour circle halved, in \<open>0..179\<close>. The two division tables hold
  \<open>255 * 4096 / i\<close> and \<open>180 * 4096 / (6 * i)\<close> rounded to the nearest integer, zero at
  index zero.
\<close>

definition sdiv_table :: "int \<Rightarrow> int" where
  "sdiv_table i = (if i = 0 then 0 else (2 * (255 * 4096) + i) div (2 * i))"

definition hdiv_table180 :: "int \<Rightarrow> int" where
  "hdiv_table180 i = (if i = 0 then 0 else (2 * (180 * 4096) + 6 * i) div (2 * (6 * i)))"

definition bgr2hsv :: "8 word \<Rightarrow> 8 word \<Rightarrow> 8 word \<Rightarrow> 8 word \<times> 8 word \<times> 8 word" where
  "bgr2hsv b8 g8 r8 =
     (let b = uint b8; g = uint g8; r = uint r8;
          v = max (max b g) r;
          vmin = min (min b g) r;
          diff = v - vmin;
          s = (diff * sdiv_table v + 2048) div 4096;
          h = (if v = r then g - b
               else if v = g then b - r + 2 * diff
               else r - g + 4 * diff);
          h = (h * hdiv_table180 diff + 2048) div 4096;
          h = (if h < 0 then h + 180 else h)
      in (word_of_int h, word_of_int s, word_of_int v))"

text \<open>
  The conversion takes the first three channels of a pixel as blue, green and red; a
  fourth channel, if there is one, is not read.
\<close>

definition bgr2hsv_px :: "8 word list \<Rightarrow> 8 word \<times> 8 word \<times> 8 word" where
  "bgr2hsv_px p = bgr2hsv (p ! 0) (p ! 1) (p ! 2)"

text \<open>
  Before converting, OpenCV checks its argument and raises \<^verbatim>\<open>cv2.error\<close> when the array
  is empty (no rows or no columns) or when the number of channels is neither 3 nor 4.
\<close>

definition cvtColor_BGR2HSV :: "frame \<Rightarrow> error + hsv_image" where
  "cvtColor_BGR2HSV src =
     (if src = [] \<or> hd src = [] then Inl cv2_error
      else if length (hd (hd src)) \<noteq> 3 \<and> length (hd (hd src)) \<noteq> 4 then Inl cv2_error
      else Inr (map (map bgr2hsv_px) src))"

subsection \<open>Thresholding\<close>

text \<open>
  \<^verbatim>\<open>cv2.inRange(hsv, lowerb, upperb)\<close>: a cell of the result is 255 when every channel
  of the pixel lies between the bounds, both included, and 0 otherwise.
\<close>

definition in_bounds :: "int \<times> int \<times> int \<Rightarrow> int \<times> int \<times> int \<Rightarrow> 8 word \<times> 8 word \<times> 8 word \<Rightarrow> bool" where
  "in_bounds lowerb upperb p =
     (case (lowerb, upperb, p) of ((l0, l1, l2), (u0, u1, u2), (h, s, v)) \<Rightarrow>
        l0 \<le> uint h \<and> uint h \<le> u0 \<and> l1 \<le> uint s \<and> uint s \<le> u1 \<and> l2 \<le> uint v \<and> uint v \<le> u2)"

definition inRange :: "hsv_image \<Rightarrow> int \<times> int \<times> int \<Rightarrow> int \<times> int \<times> int \<Rightarrow> mask" where
  "inRange src lowerb upperb = map (map (\<lambda>p. if in_bounds lowerb upperb p then 255 else 0)) src"

subsection \<open>Morphology\<close>

text \<open>
  A structuring element is an array of bytes; its nonzero cells, taken relative to the
  centre cell, are the offsets \<open>(dy, dx)\<close> it covers. \<^verbatim>\<open>np.ones((5, 5), np.uint8)\<close> covers
  the 25 offsets from \<open>-2\<close> to \<open>2\<close> in both directions.
\<close>

definition np_ones :: "nat \<Rightarrow> nat \<Rightarrow> mask" where
  "np_ones rows cols = replicate rows (replicate cols 1)"

definition kernel_offsets :: "mask \<Rightarrow> (int \<times> int) list" where
  "kernel_offsets ker =
     concat (map (\<lambda>i. concat (map (\<lambda>j.
         if ker ! i ! j \<noteq> 0
         then [(int i - int (length ker div 2), int j - int (length (ker ! i) div 2))]
         else [])
       [0..<length (ker ! i)])) [0..<length ker])"

text \<open>The cell of an image at a position, if the position is inside the image.\<close>

definition cell_at :: "mask \<Rightarrow> int \<Rightarrow> int \<Rightarrow> 8 word option" where
  "cell_at img y x =
     (if 0 \<le> y \<and> y < int (length img) \<and> 0 \<le> x \<and> x < int (length (img ! nat y))
      then Some (img ! nat y ! nat x) else None)"

definition window :: "mask \<Rightarrow> (int \<times> int) list \<Rightarrow> nat \<Rightarrow> nat \<Rightarrow> 8 word list" where
  "window img offs y x =
     List.map_filter (\<lambda>(dy, dx). cell_at img (int y + dy) (int x + dx)) offs"

text \<open>
  Dilation takes the largest cell under the structuring element and erosion the smallest.
  With the default border, positions outside the image never change the result: they
  count as 0 for dilation and as 255 for erosion.
\<close>

definition dilate :: "mask \<Rightarrow> mask \<Rightarrow> mask" where
  "dilate src ker =
     map (\<lambda>y. map (\<lambda>x. foldl max 0 (window src (kernel_offsets ker) y x))
                  [0..<length (src ! y)]) [0..<length src]"

definition erode :: "mask \<Rightarrow> mask \<Rightarrow> mask" where
  "erode src ker =
     map (\<lambda>y. map (\<lambda>x. foldl min 255 (window src (kernel_offsets ker) y x))
                  [0..<length (src ! y)]) [0..<length src]"

text \<open>
  \<^verbatim>\<open>cv2.morphologyEx(src, op, kernel)\<close> for the two operations the method uses: closing
  is a dilation followed by an erosion, opening an erosion followed by a dilation.
\<close>

datatype morph_op = MORPH_CLOSE | MORPH_OPEN

fun morphologyEx :: "mask \<Rightarrow> morph_op \<Rightarrow> mask \<Rightarrow> mask" where
  "morphologyEx src MORPH_CLOSE ker = erode (dilate src ker) ker"
| "morphologyEx src MORPH_OPEN ker = dilate (erode src ker) ker"

subsection \<open>Contour area and the largest contour\<close>

text \<open>
  \<^verbatim>\<open>cv2.contourArea(contour)\<close> works in floating point. It converts the 32-bit integer
  coordinates of every point to single precision, then adds up in double precision, over
  the points in order and starting from the last one as predecessor, the terms
  \<open>prev.x * p.y - prev.y * p.x\<close>, and returns half the absolute value of the sum; zero
  for no points. Every number that occurs before the halving is an integer, so a
  floating-point number is modelled by the integer it stands for, and a floating-point
  operation by the exact operation followed by rounding to the precision: to the nearest
  number with that many significant bits, to the one with an even last bit when two are
  equally near.
\<close>

function bit_length :: "int \<Rightarrow> nat" where
  "bit_length n = (if n \<le> 0 then 0 else Suc (bit_length (n div 2)))"
  by pat_completeness auto
termination
  by (relation "measure nat") auto

declare bit_length.simps [simp del]

definition round_to :: "nat \<Rightarrow> int \<Rightarrow> int" where
  "round_to p n =
     (if \<bar>n\<bar> < 2 ^ p then n
      else let e = bit_length \<bar>n\<bar> - p;
               q = \<bar>n\<bar> div 2 ^ e;
               r = \<bar>n\<bar> mod 2 ^ e;
               half = 2 ^ (e - 1)
           in sgn n * ((if half < r \<or> (r = half \<and> odd q) then q + 1 else q) * 2 ^ e))"

definition float32 :: "int \<Rightarrow> int" where
  "float32 = round_to 24"

definition float64 :: "int \<Rightarrow> int" where
  "float64 = round_to 53"

fun area_sum :: "int \<Rightarrow> int \<times> int \<Rightarrow> contour \<Rightarrow> int" where
  "area_sum a00 prev [] = a00"
| "area_sum a00 prev (p # ps) =
     area_sum (float64 (a00 + float64 (float64 (fst prev * snd p) - float64 (snd prev * fst p))))
       p ps"

definition contourArea :: "contour \<Rightarrow> rat" where
  "contourArea c =
     (if c = [] then 0
      else let pts = map (\<lambda>(x, y). (float32 x, float32 y)) c
           in \<bar>of_int (area_sum 0 (last pts) pts)\<bar> / 2)"




text \<open>
  Python's \<^verbatim>\<open>max(iterable, key=f)\<close> walks the elements in order and replaces the
  element it holds only by one whose key is strictly greater. It raises on an empty
  iterable; the method calls it after its own emptiness test, so the model starts from
  the first element.
\<close>

fun max_by :: "('a \<Rightarrow> 'k::linorder) \<Rightarrow> 'a \<Rightarrow> 'a list \<Rightarrow> 'a" where
  "max_by key best [] = best"
| "max_by key best (c # cs) = max_by key (if key best < key c then c else best) cs"

subsection \<open>The method\<close>

text \<open>
  \<^verbatim>\<open>
  def detect_table(self, frame):
      hsv = cv2.cvtColor(frame, cv2.COLOR_BGR2HSV)
      mask = cv2.inRange(hsv, self.lower_green, self.upper_green)
      kernel = np.ones((5, 5), np.uint8)
      mask = cv2.morphologyEx(mask, cv2.MORPH_CLOSE, kernel)
      mask = cv2.morphologyEx(mask, cv2.MORPH_OPEN, kernel)
      contours, _ = cv2.findContours(mask, cv2.RETR_EXTERNAL, cv2.CHAIN_APPROX_SIMPLE)
      if not contours:
          return None, mask
      table_contour = max(contours, key=cv2.contourArea)
      if cv2.contourArea(table_contour) < 1000:
          return None, mask
      return table_contour, mask
  \<close>
  An exception of \<^verbatim>\<open>cvtColor\<close> is not caught, so it leaves the method. The local
  \<^verbatim>\<open>kernel\<close> is written \<open>ker\<close>, the name being taken in HOL.
\<close>

definition detect_table ::
  "(mask \<Rightarrow> contour list) \<Rightarrow> TableDetector \<Rightarrow> frame \<Rightarrow> error + (contour option \<times> mask)" where
  "detect_table findContours self frame =
     (case cvtColor_BGR2HSV frame of
        Inl e \<Rightarrow> Inl e
      | Inr hsv \<Rightarrow>
          let mask = inRange hsv (lower_green self) (upper_green self);
              ker = np_ones 5 5;
              mask = morphologyEx mask MORPH_CLOSE ker;
              mask = morphologyEx mask MORPH_OPEN ker;
              contours = findContours mask
          in (case contours of
                [] \<Rightarrow> Inr (None, mask)
              | c # cs \<Rightarrow>
                  let table_contour = max_by contourArea c cs
                  in if contourArea table_contour < 1000 then Inr (None, mask)
                     else Inr (Some table_contour, mask)))"

text \<open>
  The mask the method works on after the two morphological steps, written out: the
  threshold mask, closed and then opened with the 5 by 5 element.
\<close>

definition cleaned_mask :: "TableDetector \<Rightarrow> hsv_image \<Rightarrow> mask" where
  "cleaned_mask self hsv =
     dilate (erode (erode (dilate (inRange hsv (lower_green self) (upper_green self))
       (np_ones 5 5)) (np_ones 5 5)) (np_ones 5 5)) (np_ones 5 5)"


subsection \<open>Example inputs\<close>

text \<open>
  A frame of one row and two pixels in forest green, and one in black; the axis-parallel
  square with a corner at the origin and the same square moved along the x axis.
\<close>

definition green_frame :: frame where
  "green_frame = [[[34, 139, 34], [34, 139, 34]]]"

definition black_frame :: frame where
  "black_frame = [[[0, 0, 0], [0, 0, 0]]]"

definition square_at :: "int \<Rightarrow> int \<Rightarrow> contour" where
  "square_at x n = [(x, 0), (x + n, 0), (x + n, n), (x, n)]"


text \<open>
  The frames the method is written for: at least one row and one column, every row of
  the same length, three channels in every pixel.
\<close>

definition valid_frame :: "frame \<Rightarrow> bool" where
  "valid_frame frame \<longleftrightarrow>
     frame \<noteq> [] \<and> hd frame \<noteq> [] \<and>
     (\<forall>row \<in> set frame. length row = length (hd frame) \<and> (\<forall>p \<in> set row. length p = 3))"

text \<open>
  Further examples: a frame with a fourth channel, a grey frame of one channel, a frame
  with one green and one black pixel, and a frame of three rows and columns that is
  black but for its centre. A rectangle with given columns and rows; the ones used below
  lie beyond column \<open>2 ^ 24 = 16777216\<close>, where single precision holds every
  second integer only.
\<close>

definition bgra_frame :: frame where
  "bgra_frame = [[[34, 139, 34, 255]]]"

definition grey_frame :: frame where
  "grey_frame = [[[128], [128]]]"



definition speck_frame :: frame where
  "speck_frame =
     [[[0, 0, 0], [0, 0, 0], [0, 0, 0]],
      [[0, 0, 0], [34, 139, 34], [0, 0, 0]],
      [[0, 0, 0], [0, 0, 0], [0, 0, 0]]]"

text \<open>The set of the values that occur in an image.\<close>

definition cells :: "'a list list \<Rightarrow> 'a set" where
  "cells img = (\<Union>row \<in> set img. set row)"

subsection \<open>Closing and opening as the spec has them\<close>

text \<open>
  The spec speaks of a mask as a set of cells that are inside the range, of a closing
  as a dilation followed by an erosion, and of an opening as an erosion followed by a
  dilation, with a structuring element of 5 by 5. On predicates over positions: a
  position of the image \<open>D\<close> is in the dilation of \<open>P\<close> when some position at most two
  rows and two columns away is in \<open>P\<close>, and in the erosion of \<open>P\<close> when every position
  of the image at most two rows and two columns away is in \<open>P\<close>.
\<close>

definition inside :: "'a list list \<Rightarrow> nat \<Rightarrow> nat \<Rightarrow> bool" where
  "inside img y x \<longleftrightarrow> y < length img \<and> x < length (img ! y)"

definition nonzero_at :: "mask \<Rightarrow> nat \<Rightarrow> nat \<Rightarrow> bool" where
  "nonzero_at img y x \<longleftrightarrow> inside img y x \<and> img ! y ! x \<noteq> 0"

definition dilation_5x5 :: "(nat \<Rightarrow> nat \<Rightarrow> bool) \<Rightarrow> (nat \<Rightarrow> nat \<Rightarrow> bool) \<Rightarrow> nat \<Rightarrow> nat \<Rightarrow> bool" where
  "dilation_5x5 D P y x \<longleftrightarrow>
     D y x \<and> (\<exists>y' \<in> set [y - 2..<y + 3]. \<exists>x' \<in> set [x - 2..<x + 3]. P y' x')"

definition erosion_5x5 :: "(nat \<Rightarrow> nat \<Rightarrow> bool) \<Rightarrow> (nat \<Rightarrow> nat \<Rightarrow> bool) \<Rightarrow> nat \<Rightarrow> nat \<Rightarrow> bool" where
  "erosion_5x5 D P y x \<longleftrightarrow>
     D y x \<and> (\<forall>y' \<in> set [y - 2..<y + 3]. \<forall>x' \<in> set [x - 2..<x + 3]. D y' x' \<longrightarrow> P y' x')"

definition closing_5x5 :: "(nat \<Rightarrow> nat \<Rightarrow> bool) \<Rightarrow> (nat \<Rightarrow> nat \<Rightarrow> bool) \<Rightarrow> nat \<Rightarrow> nat \<Rightarrow> bool" where
  "closing_5x5 D P = erosion_5x5 D (dilation_5x5 D P)"

definition opening_5x5 :: "(nat \<Rightarrow> nat \<Rightarrow> bool) \<Rightarrow> (nat \<Rightarrow> nat \<Rightarrow> bool) \<Rightarrow> nat \<Rightarrow> nat \<Rightarrow> bool" where
  "opening_5x5 D P = dilation_5x5 D (erosion_5x5 D P)"

text \<open>The positions of a converted frame whose pixel lies within the bounds of the detector.\<close>

definition in_range_at :: "TableDetector \<Rightarrow> hsv_image \<Rightarrow> nat \<Rightarrow> nat \<Rightarrow> bool" where
  "in_range_at self hsv y x \<longleftrightarrow>
     inside hsv y x \<and> in_bounds (lower_green self) (upper_green self) (hsv ! y ! x)"

subsection \<open>The method on the heap\<close>

text \<open>
  Python passes references: \<^verbatim>\<open>self\<close> and \<^verbatim>\<open>frame\<close> name objects that the caller also
  holds, the two attributes of the detector name arrays, and every OpenCV call of the
  method returns a newly allocated array. To say what a call leaves unchanged, the method
  is written a second time over a heap of objects: a name is an address, each library
  call reads the arrays at its arguments and stores its result at a fresh address.
\<close>

type_synonym addr = nat

datatype obj =
    Detector addr addr
  | Bounds "int \<times> int \<times> int"
  | Image frame
  | Hsv hsv_image
  | Plane mask

record heap =
  objs :: "addr \<Rightarrow> obj option"
  next_addr :: addr

text \<open>
  A statement takes the heap and gives back an exception or a value, and the heap it
  leaves. \<open>bind\<close> runs one statement after another and stops at the first exception.
\<close>

type_synonym 'a prog = "heap \<Rightarrow> (error + 'a) \<times> heap"

definition return :: "'a \<Rightarrow> 'a prog" where
  "return x h = (Inr x, h)"

definition raise :: "error \<Rightarrow> 'a prog" where
  "raise e h = (Inl e, h)"

definition bind :: "'a prog \<Rightarrow> ('a \<Rightarrow> 'b prog) \<Rightarrow> 'b prog" where
  "bind m f h = (case m h of (Inl e, h') \<Rightarrow> (Inl e, h') | (Inr x, h') \<Rightarrow> f x h')"

text \<open>Allocation stores an object at the next free address and returns that address.\<close>

definition new :: "obj \<Rightarrow> addr prog" where
  "new v h = (Inr (next_addr h), h\<lparr>objs := (objs h)(next_addr h \<mapsto> v), next_addr := Suc (next_addr h)\<rparr>)"

text \<open>The attribute reads \<^verbatim>\<open>self.lower_green\<close> and \<^verbatim>\<open>self.upper_green\<close>.\<close>

definition get_lower_green :: "addr \<Rightarrow> addr prog" where
  "get_lower_green self h =
     (case objs h self of Some (Detector lo hi) \<Rightarrow> return lo h | _ \<Rightarrow> raise AttributeError h)"

definition get_upper_green :: "addr \<Rightarrow> addr prog" where
  "get_upper_green self h =
     (case objs h self of Some (Detector lo hi) \<Rightarrow> return hi h | _ \<Rightarrow> raise AttributeError h)"

text \<open>
  The library calls: each computes the function of the earlier sections on the content
  of its arguments and allocates the result; none writes into an argument. An argument
  that is not an array of the kind the call takes is rejected with \<^verbatim>\<open>cv2.error\<close>.
\<close>

definition cv2_cvtColor_BGR2HSV :: "addr \<Rightarrow> addr prog" where
  "cv2_cvtColor_BGR2HSV src h =
     (case objs h src of
        Some (Image f) \<Rightarrow>
          (case cvtColor_BGR2HSV f of Inl e \<Rightarrow> raise e h | Inr hsv \<Rightarrow> new (Hsv hsv) h)
      | _ \<Rightarrow> raise cv2_error h)"

definition cv2_inRange :: "addr \<Rightarrow> addr \<Rightarrow> addr \<Rightarrow> addr prog" where
  "cv2_inRange src lowerb upperb h =
     (case (objs h src, objs h lowerb, objs h upperb) of
        (Some (Hsv hsv), Some (Bounds lo), Some (Bounds hi)) \<Rightarrow> new (Plane (inRange hsv lo hi)) h
      | _ \<Rightarrow> raise cv2_error h)"

definition np_ones_uint8 :: "nat \<Rightarrow> nat \<Rightarrow> addr prog" where
  "np_ones_uint8 rows cols = new (Plane (np_ones rows cols))"

definition cv2_morphologyEx :: "addr \<Rightarrow> morph_op \<Rightarrow> addr \<Rightarrow> addr prog" where
  "cv2_morphologyEx src op ker h =
     (case (objs h src, objs h ker) of
        (Some (Plane m), Some (Plane k)) \<Rightarrow> new (Plane (morphologyEx m op k)) h
      | _ \<Rightarrow> raise cv2_error h)"

definition cv2_findContours :: "(mask \<Rightarrow> contour list) \<Rightarrow> addr \<Rightarrow> contour list prog" where
  "cv2_findContours findContours img h =
     (case objs h img of
        Some (Plane m) \<Rightarrow> return (findContours m) h
      | _ \<Rightarrow> raise cv2_error h)"

text \<open>The body of \<^verbatim>\<open>detect_table\<close>, statement by statement.\<close>

definition detect_table_run ::
  "(mask \<Rightarrow> contour list) \<Rightarrow> addr \<Rightarrow> addr \<Rightarrow> (contour option \<times> addr) prog" where
  "detect_table_run findContours self frame =
     bind (cv2_cvtColor_BGR2HSV frame) (\<lambda>hsv.
     bind (get_lower_green self) (\<lambda>lower_green.
     bind (get_upper_green self) (\<lambda>upper_green.
     bind (cv2_inRange hsv lower_green upper_green) (\<lambda>mask.
     bind (np_ones_uint8 5 5) (\<lambda>ker.
     bind (cv2_morphologyEx mask MORPH_CLOSE ker) (\<lambda>mask.
     bind (cv2_morphologyEx mask MORPH_OPEN ker) (\<lambda>mask.
     bind (cv2_findContours findContours mask) (\<lambda>contours.
       case contours of
         [] \<Rightarrow> return (None, mask)
       | c # cs \<Rightarrow>
           let table_contour = max_by contourArea c cs
           in if contourArea table_contour < 1000 then return (None, mask)
              else return (Some table_contour, mask)))))))))"


text \<open>The constructor allocates the two arrays of bounds and the detector.\<close>

definition TableDetector_new :: "addr prog" where
  "TableDetector_new =
     bind (new (Bounds (35, 50, 50))) (\<lambda>lower_green.
     bind (new (Bounds (85, 255, 255))) (\<lambda>upper_green.
       new (Detector lower_green upper_green)))"

text \<open>
  What a heap holds at the addresses of a call: the bounds of the detector at \<open>self\<close>,
  the content of the frame, the content of a mask. What a caller observes of a call:
  the exception, or the contour together with the content of the mask returned.
\<close>

definition detector_at :: "heap \<Rightarrow> addr \<Rightarrow> TableDetector option" where
  "detector_at h self =
     (case objs h self of
        Some (Detector lo_ref hi_ref) \<Rightarrow>
          (case (objs h lo_ref, objs h hi_ref) of
             (Some (Bounds lo), Some (Bounds hi)) \<Rightarrow>
               if self < next_addr h \<and> lo_ref < next_addr h \<and> hi_ref < next_addr h
               then Some \<lparr>lower_green = lo, upper_green = hi\<rparr> else None
           | _ \<Rightarrow> None)
      | _ \<Rightarrow> None)"

definition frame_at :: "heap \<Rightarrow> addr \<Rightarrow> frame option" where
  "frame_at h a =
     (case objs h a of
        Some (Image f) \<Rightarrow> if a < next_addr h then Some f else None
      | _ \<Rightarrow> None)"

definition plane_at :: "heap \<Rightarrow> addr \<Rightarrow> mask option" where
  "plane_at h a = (case objs h a of Some (Plane m) \<Rightarrow> Some m | _ \<Rightarrow> None)"

definition observed ::
  "(error + (contour option \<times> addr)) \<times> heap \<Rightarrow> (error + (contour option \<times> mask)) option" where
  "observed rh =
     (case rh of
        (Inl e, h') \<Rightarrow> Some (Inl e)
      | (Inr (c, a), h') \<Rightarrow> map_option (\<lambda>m. Inr (c, m)) (plane_at h' a))"

text \<open>
  An example heap: the constructor run on the empty heap, then the green frame allocated.
  The detector is at address 2 and the frame at address 3.
\<close>

definition empty_heap :: heap where
  "empty_heap = \<lparr>objs = (\<lambda>a. None), next_addr = 0\<rparr>"

definition example_heap :: heap where
  "example_heap = snd (bind TableDetector_new (\<lambda>self. new (Image green_frame)) empty_heap)"

text \<open>
  A heap extends another when it has every object of the other, unchanged, at the
  addresses the other had allocated.
\<close>

definition extends :: "heap \<Rightarrow> heap \<Rightarrow> bool" where
  "extends h h' \<longleftrightarrow> next_addr h \<le> next_addr h' \<and> (\<forall>a < next_addr h. objs h' a = objs h a)"

definition preserving :: "'a prog \<Rightarrow> bool" where
  "preserving m \<longleftrightarrow> (\<forall>h. extends h (snd (m h)))"

section \<open>Properties\<close>

subsection \<open>The largest element\<close>





lemma detect_table_unfold:
  "cvtColor_BGR2HSV frame = Inr hsv \<Longrightarrow>
   detect_table findContours self frame =
     (case findContours (cleaned_mask self hsv) of
        [] \<Rightarrow> Inr (None, cleaned_mask self hsv)
      | c # cs \<Rightarrow>
          if contourArea (max_by contourArea c cs) < 1000 then Inr (None, cleaned_mask self hsv)
          else Inr (Some (max_by contourArea c cs), cleaned_mask self hsv))"
  unfolding detect_table_def cleaned_mask_def Let_def by (simp split: list.split)

lemma detect_table_error:
  "cvtColor_BGR2HSV frame = Inl e \<Longrightarrow> detect_table findContours self frame = Inl e"
  by (simp add: detect_table_def)








subsection \<open>The computed area and the enclosed area\<close>









subsection \<open>The area threshold\<close>




subsection \<open>The largest contour\<close>




subsection \<open>No contour\<close>

text \<open>
  Claim C6. When the cleaned mask yields no contour, \<open>detect_table\<close> returns normally,
  with no contour and with the cleaned mask of the frame: the absence of a table is a
  result, not an error.
\<close>

theorem detect_table_no_contours:
  assumes "cvtColor_BGR2HSV frame = Inr hsv"
    and "findContours (cleaned_mask self hsv) = []"
  shows "detect_table findContours self frame = Inr (None, cleaned_mask self hsv)"
  using assms(2) by (simp add: detect_table_unfold [OF assms(1)])

theorem detect_table_no_contours_witness:
  "cvtColor_BGR2HSV black_frame = Inr [[(0, 0, 0), (0, 0, 0)]]
   \<and> detect_table (\<lambda>m. []) TableDetector_init black_frame = Inr (None, [[0, 0]])"
proof -
  let ?hsv = "[[(0, 0, 0), (0, 0, 0)]] :: hsv_image"
  have cvt: "cvtColor_BGR2HSV black_frame = Inr ?hsv" by code_simp
  have m: "cleaned_mask TableDetector_init ?hsv = [[0, 0]]" by code_simp
  from detect_table_no_contours [OF cvt, of "\<lambda>m. []" TableDetector_init]
  show ?thesis using cvt by (simp add: m)
qed

subsection \<open>Ties\<close>



subsection \<open>Shape and values of the images\<close>

lemma cells_iff: "v \<in> cells img \<longleftrightarrow> (\<exists>y<length img. \<exists>x<length (img ! y). img ! y ! x = v)"
  unfolding cells_def by (metis UN_iff in_set_conv_nth)

lemma map_row_lengths: "map (\<lambda>y. length (img ! y)) [0..<length img] = map length img"
  by (rule nth_equalityI) simp_all

lemma map_length_dilate: "map length (dilate src ker) = map length src"
proof -
  have "map length (dilate src ker) = map (\<lambda>y. length (src ! y)) [0..<length src]"
    by (simp add: dilate_def comp_def)
  then show ?thesis by (simp only: map_row_lengths)
qed

lemma map_length_erode: "map length (erode src ker) = map length src"
proof -
  have "map length (erode src ker) = map (\<lambda>y. length (src ! y)) [0..<length src]"
    by (simp add: erode_def comp_def)
  then show ?thesis by (simp only: map_row_lengths)
qed

lemma map_length_inRange: "map length (inRange src lo hi) = map length src"
  by (simp add: inRange_def comp_def)

lemma map_length_cleaned_mask: "map length (cleaned_mask self hsv) = map length hsv"
  by (simp add: cleaned_mask_def map_length_dilate map_length_erode map_length_inRange)

lemma cell_at_cells: "cell_at img y x = Some v \<Longrightarrow> v \<in> cells img"
proof -
  assume a: "cell_at img y x = Some v"
  then have "nat y < length img" "nat x < length (img ! nat y)" "v = img ! nat y ! nat x"
    by (auto simp: cell_at_def split: if_splits)
  then show ?thesis unfolding cells_iff by blast
qed

lemma set_window:
  "set (window img offs y x) = {v. \<exists>(dy, dx) \<in> set offs. cell_at img (int y + dy) (int x + dx) = Some v}"
  unfolding window_def List.map_filter_def by force

lemma window_cells: "set (window img offs y x) \<subseteq> cells img"
  by (auto simp: set_window dest: cell_at_cells)

lemma foldl_max_in: "foldl max (a::'a::linorder) xs \<in> insert a (set xs)"
  by (induction xs arbitrary: a) (auto simp: max_def)

lemma foldl_min_in: "foldl min (a::'a::linorder) xs \<in> insert a (set xs)"
  by (induction xs arbitrary: a) (auto simp: min_def)



lemma cells_dilate: "cells (dilate src ker) \<subseteq> insert 0 (cells src)"
proof
  fix v assume "v \<in> cells (dilate src ker)"
  then obtain y x where "v = foldl max 0 (window src (kernel_offsets ker) y x)"
    by (auto simp: cells_def dilate_def)
  then show "v \<in> insert 0 (cells src)"
    using foldl_max_in [of 0 "window src (kernel_offsets ker) y x"] window_cells by fastforce
qed

lemma cells_erode: "cells (erode src ker) \<subseteq> insert 255 (cells src)"
proof
  fix v assume "v \<in> cells (erode src ker)"
  then obtain y x where "v = foldl min 255 (window src (kernel_offsets ker) y x)"
    by (auto simp: cells_def erode_def)
  then show "v \<in> insert 255 (cells src)"
    using foldl_min_in [of 255 "window src (kernel_offsets ker) y x"] window_cells by fastforce
qed

lemma cells_inRange: "cells (inRange src lo hi) \<subseteq> {0, 255}"
  by (auto simp: cells_def inRange_def)

lemma cells_cleaned_mask: "cells (cleaned_mask self hsv) \<subseteq> {0, 255}"
proof -
  let ?k = "np_ones 5 5"
  let ?t = "inRange hsv (lower_green self) (upper_green self)"
  have 1: "cells (dilate ?t ?k) \<subseteq> {0, 255}" using cells_dilate cells_inRange by fast
  have 2: "cells (erode (dilate ?t ?k) ?k) \<subseteq> {0, 255}" using cells_erode 1 by fast
  have 3: "cells (erode (erode (dilate ?t ?k) ?k) ?k) \<subseteq> {0, 255}" using cells_erode 2 by fast
  show ?thesis unfolding cleaned_mask_def using cells_dilate 3 by fast
qed






lemma valid_frame_cvtColor:
  "valid_frame frame \<Longrightarrow> cvtColor_BGR2HSV frame = Inr (map (map bgr2hsv_px) frame)"
proof -
  assume v: "valid_frame frame"
  then have ne: "frame \<noteq> []" "hd frame \<noteq> []" by (simp_all add: valid_frame_def)
  then have "hd frame \<in> set frame" "hd (hd frame) \<in> set (hd frame)" by simp_all
  with v have "length (hd (hd frame)) = 3" unfolding valid_frame_def by blast
  with ne show ?thesis by (simp add: cvtColor_BGR2HSV_def)
qed

lemma cvtColor_shape: "cvtColor_BGR2HSV frame = Inr hsv \<Longrightarrow> map length hsv = map length frame"
  by (auto simp: cvtColor_BGR2HSV_def comp_def split: if_splits)

lemma inRange_nth:
  "y < length hsv \<Longrightarrow> x < length (hsv ! y) \<Longrightarrow>
   inRange hsv lo hi ! y ! x = (if in_bounds lo hi (hsv ! y ! x) then 255 else 0)"
  by (simp add: inRange_def)


subsection \<open>The mask\<close>

text \<open>
  Claim C7. For a frame of positive height and width with three channels per pixel,
  \<open>detect_table\<close> returns, whether or not it returns a contour, a mask with as many rows
  as the frame and as many cells in each row as the frame has columns, one byte per
  cell, and every cell is 0 or 255.
\<close>

theorem detect_table_mask_shape:
  assumes "valid_frame frame"
  shows "\<exists>table_contour m. detect_table findContours self frame = Inr (table_contour, m)
           \<and> length m = length frame
           \<and> (\<forall>row \<in> set m. length row = length (hd frame))
           \<and> (\<forall>row \<in> set m. \<forall>v \<in> set row. v = 0 \<or> v = 255)"
proof -
  let ?hsv = "map (map bgr2hsv_px) frame"
  let ?m = "cleaned_mask self ?hsv"
  have cvt: "cvtColor_BGR2HSV frame = Inr ?hsv" by (rule valid_frame_cvtColor [OF assms])
  have ret: "\<exists>table_contour. detect_table findContours self frame = Inr (table_contour, ?m)"
    by (simp add: detect_table_unfold [OF cvt] split: list.split)
  have lens: "map length ?m = map length frame"
    using map_length_cleaned_mask [of self ?hsv] cvtColor_shape [OF cvt] by simp
  then have len: "length ?m = length frame" by (rule map_eq_imp_length_eq)
  have rows: "\<forall>row \<in> set ?m. length row = length (hd frame)"
  proof
    fix row assume "row \<in> set ?m"
    then have "length row \<in> set (map length ?m)" by simp
    then have "length row \<in> set (map length frame)" by (simp only: lens)
    then obtain r where "r \<in> set frame" "length row = length r" by auto
    with assms show "length row = length (hd frame)" unfolding valid_frame_def by metis
  qed
  have vals: "\<forall>row \<in> set ?m. \<forall>v \<in> set row. v = 0 \<or> v = 255"
  proof (intro ballI)
    fix row v assume "row \<in> set ?m" "v \<in> set row"
    then have "v \<in> cells ?m" unfolding cells_def by blast
    then have "v \<in> {0, 255}" using cells_cleaned_mask [of self ?hsv] by (rule subsetD [rotated])
    then show "v = 0 \<or> v = 255" by (simp only: insert_iff empty_iff simp_thms)
  qed
  from ret obtain tc where "detect_table findContours self frame = Inr (tc, ?m)" ..
  with len rows vals show ?thesis by (intro exI [of _ tc] exI [of _ ?m] conjI)
qed

theorem detect_table_mask_shape_witness:
  "valid_frame green_frame
   \<and> detect_table (\<lambda>m. [square_at 0 40]) TableDetector_init green_frame
       = Inr (Some (square_at 0 40), [[255, 255]])
   \<and> valid_frame black_frame
   \<and> detect_table (\<lambda>m. []) TableDetector_init black_frame = Inr (None, [[0, 0]])
   \<and> (\<exists>table_contour m. detect_table (\<lambda>m. []) TableDetector_init black_frame = Inr (table_contour, m)
           \<and> length m = length black_frame
           \<and> (\<forall>row \<in> set m. length row = length (hd black_frame))
           \<and> (\<forall>row \<in> set m. \<forall>v \<in> set row. v = 0 \<or> v = 255))"
proof -
  have g: "valid_frame green_frame" by code_simp
  have b: "valid_frame black_frame" by code_simp
  have rg: "detect_table (\<lambda>m. [square_at 0 40]) TableDetector_init green_frame
       = Inr (Some (square_at 0 40), [[255, 255]])" by code_simp
  have rb: "detect_table (\<lambda>m. []) TableDetector_init black_frame = Inr (None, [[0, 0]])"
    by code_simp
  note shape = detect_table_mask_shape [OF b, of "\<lambda>m. []" TableDetector_init]
  from g rg b rb shape show ?thesis by (intro conjI)
qed

subsection \<open>Dilation and erosion, cell by cell\<close>

lemma max_word_zero: "max (a::8 word) b = 0 \<longleftrightarrow> a = 0 \<and> b = 0"
proof
  assume m: "max a b = 0"
  have "a \<le> max a b" "b \<le> max a b" by simp_all
  with m have "a \<le> 0" "b \<le> 0" by simp_all
  then show "a = 0 \<and> b = 0" by simp
next
  assume "a = 0 \<and> b = 0"
  then show "max a b = 0" by simp
qed

lemma min_word_zero: "min (a::8 word) b = 0 \<longleftrightarrow> a = 0 \<or> b = 0"
proof
  assume "min a b = 0"
  then show "a = 0 \<or> b = 0" by (cases "a \<le> b") (simp_all add: min_def)
next
  assume z: "a = 0 \<or> b = 0"
  have "min a b \<le> a" "min a b \<le> b" by simp_all
  with z have "min a b \<le> 0" by auto
  then show "min a b = 0" by simp
qed

lemma foldl_max_nonzero:
  "foldl max (a::8 word) xs \<noteq> 0 \<longleftrightarrow> a \<noteq> 0 \<or> (\<exists>v \<in> set xs. v \<noteq> 0)"
proof (induction xs arbitrary: a)
  case Nil
  show ?case by simp
next
  case (Cons x xs)
  have "foldl max a (x # xs) \<noteq> 0 \<longleftrightarrow> max a x \<noteq> 0 \<or> (\<exists>v \<in> set xs. v \<noteq> 0)"
    using Cons.IH [of "max a x"] by simp
  also have "\<dots> \<longleftrightarrow> a \<noteq> 0 \<or> (\<exists>v \<in> set (x # xs). v \<noteq> 0)"
    unfolding max_word_zero by auto
  finally show ?case .
qed

lemma foldl_min_nonzero:
  "foldl min (a::8 word) xs \<noteq> 0 \<longleftrightarrow> a \<noteq> 0 \<and> (\<forall>v \<in> set xs. v \<noteq> 0)"
proof (induction xs arbitrary: a)
  case Nil
  show ?case by simp
next
  case (Cons x xs)
  have "foldl min a (x # xs) \<noteq> 0 \<longleftrightarrow> min a x \<noteq> 0 \<and> (\<forall>v \<in> set xs. v \<noteq> 0)"
    using Cons.IH [of "min a x"] by simp
  also have "\<dots> \<longleftrightarrow> a \<noteq> 0 \<and> (\<forall>v \<in> set (x # xs). v \<noteq> 0)"
    unfolding min_word_zero by auto
  finally show ?case .
qed

lemma near_ex:
  "(\<exists>d \<in> {-2..2::int}. 0 \<le> int y + d \<and> R (nat (int y + d))) \<longleftrightarrow> (\<exists>y' \<in> set [y - 2..<y + 3]. R y')"
proof
  assume "\<exists>d \<in> {-2..2::int}. 0 \<le> int y + d \<and> R (nat (int y + d))"
  then obtain d where d: "-2 \<le> d" "d \<le> 2" "0 \<le> int y + d" "R (nat (int y + d))" by auto
  have "nat (int y + d) \<in> set [y - 2..<y + 3]" using d(1,2,3) by (simp; linarith)
  with d(4) show "\<exists>y' \<in> set [y - 2..<y + 3]. R y'" by blast
next
  assume "\<exists>y' \<in> set [y - 2..<y + 3]. R y'"
  then obtain y' where y': "y - 2 \<le> y'" "y' < y + 3" "R y'" by auto
  let ?d = "int y' - int y"
  have "?d \<in> {-2..2}" using y'(1,2) by (simp; linarith)
  moreover have "0 \<le> int y + ?d" by simp
  moreover have "R (nat (int y + ?d))" using y'(3) by simp
  ultimately show "\<exists>d \<in> {-2..2::int}. 0 \<le> int y + d \<and> R (nat (int y + d))" by blast
qed

lemma near_all:
  "(\<forall>d \<in> {-2..2::int}. 0 \<le> int y + d \<longrightarrow> R (nat (int y + d))) \<longleftrightarrow> (\<forall>y' \<in> set [y - 2..<y + 3]. R y')"
  using near_ex [of y "\<lambda>y'. \<not> R y'"] by blast

lemma offsets_ones: "set (kernel_offsets (np_ones 5 5)) = {-2..2} \<times> {-2..2}"
proof -
  have "kernel_offsets (np_ones 5 5) = List.product [-2..2] [-2..2]" by code_simp
  then show ?thesis by (simp only: set_product set_upto)
qed

lemma cell_at_Some:
  "cell_at img yy xx = Some v \<longleftrightarrow>
     0 \<le> yy \<and> 0 \<le> xx \<and> inside img (nat yy) (nat xx) \<and> v = img ! nat yy ! nat xx"
  unfolding cell_at_def inside_def by (cases "0 \<le> yy"; cases "0 \<le> xx") auto

lemma window_ones:
  "set (window img (kernel_offsets (np_ones 5 5)) y x) =
     {v. \<exists>dy \<in> {-2..2}. \<exists>dx \<in> {-2..2}. cell_at img (int y + dy) (int x + dx) = Some v}"
  unfolding set_window offsets_ones by auto

lemma window_ex:
  "(\<exists>v \<in> set (window img (kernel_offsets (np_ones 5 5)) y x). Q v) \<longleftrightarrow>
   (\<exists>y' \<in> set [y - 2..<y + 3]. \<exists>x' \<in> set [x - 2..<x + 3]. inside img y' x' \<and> Q (img ! y' ! x'))"
proof -
  have "(\<exists>v \<in> set (window img (kernel_offsets (np_ones 5 5)) y x). Q v) \<longleftrightarrow>
      (\<exists>dy \<in> {-2..2::int}. 0 \<le> int y + dy \<and>
         (\<exists>dx \<in> {-2..2::int}. 0 \<le> int x + dx \<and>
            inside img (nat (int y + dy)) (nat (int x + dx))
            \<and> Q (img ! nat (int y + dy) ! nat (int x + dx))))"
    unfolding window_ones cell_at_Some by blast
  also have "\<dots> \<longleftrightarrow> (\<exists>dy \<in> {-2..2::int}. 0 \<le> int y + dy \<and>
         (\<exists>x' \<in> set [x - 2..<x + 3]. inside img (nat (int y + dy)) x'
            \<and> Q (img ! nat (int y + dy) ! x')))"
    by (simp only: near_ex [of x "\<lambda>x'. inside img (nat (int y + dy)) x' \<and> Q (img ! nat (int y + dy) ! x')" for dy])
  also have "\<dots> \<longleftrightarrow> (\<exists>y' \<in> set [y - 2..<y + 3]. \<exists>x' \<in> set [x - 2..<x + 3].
      inside img y' x' \<and> Q (img ! y' ! x'))"
    by (rule near_ex [of y "\<lambda>y'. \<exists>x' \<in> set [x - 2..<x + 3]. inside img y' x' \<and> Q (img ! y' ! x')"])
  finally show ?thesis .
qed

lemma window_all:
  "(\<forall>v \<in> set (window img (kernel_offsets (np_ones 5 5)) y x). Q v) \<longleftrightarrow>
   (\<forall>y' \<in> set [y - 2..<y + 3]. \<forall>x' \<in> set [x - 2..<x + 3]. inside img y' x' \<longrightarrow> Q (img ! y' ! x'))"
  using window_ex [of img y x "\<lambda>v. \<not> Q v"] by blast

lemma inside_dilate: "inside (dilate src ker) y x \<longleftrightarrow> inside src y x"
  by (auto simp: inside_def dilate_def)

lemma inside_erode: "inside (erode src ker) y x \<longleftrightarrow> inside src y x"
  by (auto simp: inside_def erode_def)

lemma dilate_nth:
  "inside src y x \<Longrightarrow> dilate src ker ! y ! x = foldl max 0 (window src (kernel_offsets ker) y x)"
  by (simp add: inside_def dilate_def)

lemma erode_nth:
  "inside src y x \<Longrightarrow> erode src ker ! y ! x = foldl min 255 (window src (kernel_offsets ker) y x)"
  by (simp add: inside_def erode_def)

lemma nonzero_dilate:
  "nonzero_at (dilate src (np_ones 5 5)) y x \<longleftrightarrow> dilation_5x5 (inside src) (nonzero_at src) y x"
proof (cases "inside src y x")
  case False
  then show ?thesis by (simp add: nonzero_at_def dilation_5x5_def inside_dilate)
next
  case True
  have "dilate src (np_ones 5 5) ! y ! x \<noteq> 0 \<longleftrightarrow>
      (\<exists>v \<in> set (window src (kernel_offsets (np_ones 5 5)) y x). v \<noteq> 0)"
    by (simp only: dilate_nth [OF True] foldl_max_nonzero) simp
  also have "\<dots> \<longleftrightarrow> (\<exists>y' \<in> set [y - 2..<y + 3]. \<exists>x' \<in> set [x - 2..<x + 3]. nonzero_at src y' x')"
    unfolding window_ex nonzero_at_def ..
  finally show ?thesis using True by (simp add: nonzero_at_def dilation_5x5_def inside_dilate)
qed

lemma nonzero_erode:
  "nonzero_at (erode src (np_ones 5 5)) y x \<longleftrightarrow> erosion_5x5 (inside src) (nonzero_at src) y x"
proof (cases "inside src y x")
  case False
  then show ?thesis by (simp add: nonzero_at_def erosion_5x5_def inside_erode)
next
  case True
  have "erode src (np_ones 5 5) ! y ! x \<noteq> 0 \<longleftrightarrow>
      (\<forall>v \<in> set (window src (kernel_offsets (np_ones 5 5)) y x). v \<noteq> 0)"
    by (simp only: erode_nth [OF True] foldl_min_nonzero) simp
  also have "\<dots> \<longleftrightarrow> (\<forall>y' \<in> set [y - 2..<y + 3]. \<forall>x' \<in> set [x - 2..<x + 3].
      inside src y' x' \<longrightarrow> nonzero_at src y' x')"
    unfolding window_all nonzero_at_def by blast
  finally show ?thesis using True by (simp add: nonzero_at_def erosion_5x5_def inside_erode)
qed

lemma inside_dilate_fun: "inside (dilate src ker) = inside src"
  by (intro ext) (rule inside_dilate)

lemma inside_erode_fun: "inside (erode src ker) = inside src"
  by (intro ext) (rule inside_erode)

lemma nonzero_dilate_fun:
  "nonzero_at (dilate src (np_ones 5 5)) = dilation_5x5 (inside src) (nonzero_at src)"
  by (intro ext) (rule nonzero_dilate)

lemma nonzero_erode_fun:
  "nonzero_at (erode src (np_ones 5 5)) = erosion_5x5 (inside src) (nonzero_at src)"
  by (intro ext) (rule nonzero_erode)

lemma inside_inRange: "inside (inRange hsv lo hi) = inside hsv"
  by (intro ext) (auto simp: inside_def inRange_def)

lemma nonzero_inRange:
  "nonzero_at (inRange hsv (lower_green self) (upper_green self)) = in_range_at self hsv"
proof (intro ext)
  fix y x
  show "nonzero_at (inRange hsv (lower_green self) (upper_green self)) y x = in_range_at self hsv y x"
  proof (cases "inside hsv y x")
    case False
    then show ?thesis by (simp add: nonzero_at_def in_range_at_def inside_inRange)
  next
    case True
    then have "inRange hsv (lower_green self) (upper_green self) ! y ! x =
        (if in_bounds (lower_green self) (upper_green self) (hsv ! y ! x) then 255 else 0)"
      by (simp add: inside_def inRange_nth)
    with True show ?thesis by (simp add: nonzero_at_def in_range_at_def inside_inRange)
  qed
qed

lemma nonzero_cleaned_mask:
  "nonzero_at (cleaned_mask self hsv) =
     opening_5x5 (inside hsv) (closing_5x5 (inside hsv) (in_range_at self hsv))"
  unfolding cleaned_mask_def opening_5x5_def closing_5x5_def
  by (simp only: nonzero_dilate_fun nonzero_erode_fun inside_dilate_fun inside_erode_fun
      inside_inRange nonzero_inRange)

lemma inside_cleaned_mask: "inside (cleaned_mask self hsv) = inside hsv"
  unfolding cleaned_mask_def
  by (simp only: inside_dilate_fun inside_erode_fun inside_inRange)

lemma cleaned_mask_nth:
  assumes "inside hsv y x"
  shows "cleaned_mask self hsv ! y ! x =
     (if opening_5x5 (inside hsv) (closing_5x5 (inside hsv) (in_range_at self hsv)) y x
      then 255 else 0)"
proof -
  let ?m = "cleaned_mask self hsv"
  from assms have ins: "inside ?m y x" by (simp only: inside_cleaned_mask)
  then have "?m ! y ! x \<in> cells ?m" unfolding cells_iff inside_def by blast
  then have "?m ! y ! x \<in> {0, 255}" using cells_cleaned_mask [of self hsv] by (rule subsetD [rotated])
  then have v: "?m ! y ! x = 0 \<or> ?m ! y ! x = 255" by (simp only: insert_iff empty_iff simp_thms)
  have nz: "?m ! y ! x \<noteq> 0 \<longleftrightarrow>
      opening_5x5 (inside hsv) (closing_5x5 (inside hsv) (in_range_at self hsv)) y x"
  proof -
    have "nonzero_at ?m y x \<longleftrightarrow>
        opening_5x5 (inside hsv) (closing_5x5 (inside hsv) (in_range_at self hsv)) y x"
      by (simp only: nonzero_cleaned_mask)
    moreover have "nonzero_at ?m y x \<longleftrightarrow> ?m ! y ! x \<noteq> 0"
      using ins by (simp only: nonzero_at_def simp_thms)
    ultimately show ?thesis by blast
  qed
  show ?thesis
  proof (cases "opening_5x5 (inside hsv) (closing_5x5 (inside hsv) (in_range_at self hsv)) y x")
    case True
    with nz have "?m ! y ! x \<noteq> 0" by (simp only: simp_thms)
    with v have "?m ! y ! x = 255" by blast
    with True show ?thesis by (simp only: if_True)
  next
    case False
    with nz have "?m ! y ! x = 0" by (simp only: simp_thms)
    with False show ?thesis by (simp only: if_False)
  qed
qed

subsection \<open>The order of the morphological steps\<close>

text \<open>
  Claim C4. The mask that \<open>detect_table\<close> returns, and from which it extracts the
  contours, is the opening of the closing of the threshold mask with the structuring
  element of 5 by 5: it has the shape of the frame, and its cell at a position is 255
  when the position is in the dilation of the erosion (the opening) of the erosion of
  the dilation (the closing) of the positions whose pixel is within the bounds, and 0
  otherwise. On the frame that is black but for its centre the order shows: closing
  first fills the frame, opening first would have emptied it.
\<close>

theorem detect_table_close_then_open:
  assumes "cvtColor_BGR2HSV frame = Inr hsv"
  shows "\<exists>m. detect_table findContours self frame =
              (case findContours m of
                 [] \<Rightarrow> Inr (None, m)
               | c # cs \<Rightarrow>
                   Inr (if contourArea (max_by contourArea c cs) < 1000 then None
                        else Some (max_by contourArea c cs), m))
           \<and> map length m = map length hsv
           \<and> (\<forall>y x. inside hsv y x \<longrightarrow>
                 m ! y ! x =
                   (if opening_5x5 (inside hsv) (closing_5x5 (inside hsv) (in_range_at self hsv)) y x
                    then 255 else 0))"
proof -
  let ?m = "cleaned_mask self hsv"
  have ret: "detect_table findContours self frame =
      (case findContours ?m of
         [] \<Rightarrow> Inr (None, ?m)
       | c # cs \<Rightarrow>
           Inr (if contourArea (max_by contourArea c cs) < 1000 then None
                else Some (max_by contourArea c cs), ?m))"
    unfolding detect_table_unfold [OF assms] by (simp split: list.split)
  have shape: "map length ?m = map length hsv" by (rule map_length_cleaned_mask)
  have vals: "\<forall>y x. inside hsv y x \<longrightarrow>
      ?m ! y ! x =
        (if opening_5x5 (inside hsv) (closing_5x5 (inside hsv) (in_range_at self hsv)) y x
         then 255 else 0)"
    by (intro allI impI) (rule cleaned_mask_nth)
  from ret shape vals show ?thesis by (intro exI [of _ ?m] conjI)
qed

theorem detect_table_close_then_open_witness:
  "cvtColor_BGR2HSV speck_frame =
     Inr [[(0, 0, 0), (0, 0, 0), (0, 0, 0)], [(0, 0, 0), (60, 193, 139), (0, 0, 0)],
          [(0, 0, 0), (0, 0, 0), (0, 0, 0)]]
   \<and> inRange [[(0, 0, 0), (0, 0, 0), (0, 0, 0)], [(0, 0, 0), (60, 193, 139), (0, 0, 0)],
          [(0, 0, 0), (0, 0, 0), (0, 0, 0)]] (lower_green TableDetector_init)
        (upper_green TableDetector_init) = [[0, 0, 0], [0, 255, 0], [0, 0, 0]]
   \<and> detect_table (\<lambda>m. []) TableDetector_init speck_frame
       = Inr (None, [[255, 255, 255], [255, 255, 255], [255, 255, 255]])
   \<and> morphologyEx (morphologyEx [[0, 0, 0], [0, 255, 0], [0, 0, 0]] MORPH_OPEN (np_ones 5 5))
        MORPH_CLOSE (np_ones 5 5) = [[0, 0, 0], [0, 0, 0], [0, 0, 0]]
   \<and> (\<exists>m. detect_table (\<lambda>m. []) TableDetector_init speck_frame = Inr (None, m)
          \<and> m ! 0 ! 0 = 255 \<and> m ! 1 ! 1 = 255 \<and> m ! 2 ! 2 = 255)"
proof -
  let ?hsv = "[[(0, 0, 0), (0, 0, 0), (0, 0, 0)], [(0, 0, 0), (60, 193, 139), (0, 0, 0)],
          [(0, 0, 0), (0, 0, 0), (0, 0, 0)]] :: hsv_image"
  let ?P = "opening_5x5 (inside ?hsv) (closing_5x5 (inside ?hsv) (in_range_at TableDetector_init ?hsv))"
  have cvt: "cvtColor_BGR2HSV speck_frame = Inr ?hsv" by code_simp
  have thr: "inRange ?hsv (lower_green TableDetector_init) (upper_green TableDetector_init)
      = [[0, 0, 0], [0, 255, 0], [0, 0, 0]]" by code_simp
  have ret: "detect_table (\<lambda>m. []) TableDetector_init speck_frame
       = Inr (None, [[255, 255, 255], [255, 255, 255], [255, 255, 255]])" by code_simp
  have rev: "morphologyEx (morphologyEx [[0, 0, 0], [0, 255, 0], [0, 0, 0]] MORPH_OPEN (np_ones 5 5))
        MORPH_CLOSE (np_ones 5 5) = [[0, 0, 0], [0, 0, 0], [0, 0, 0]]" by code_simp
  have i: "inside ?hsv 0 0" "inside ?hsv 1 1" "inside ?hsv 2 2" by code_simp+
  have p: "?P 0 0" "?P 1 1" "?P 2 2" by code_simp+
  from detect_table_close_then_open [OF cvt, of "\<lambda>m. []" TableDetector_init]
  obtain m where m: "detect_table (\<lambda>m. []) TableDetector_init speck_frame = Inr (None, m)"
    and v: "\<forall>y x. inside ?hsv y x \<longrightarrow> m ! y ! x = (if ?P y x then 255 else 0)"
    by auto
  from v i(1) p(1) have v0: "m ! 0 ! 0 = 255" by simp
  from v i(2) p(2) have v1: "m ! 1 ! 1 = 255" by simp
  from v i(3) p(3) have v2: "m ! 2 ! 2 = 255" by simp
  from m v0 v1 v2 have ex: "\<exists>m. detect_table (\<lambda>m. []) TableDetector_init speck_frame = Inr (None, m)
          \<and> m ! 0 ! 0 = 255 \<and> m ! 1 ! 1 = 255 \<and> m ! 2 ! 2 = 255"
    by blast
  from cvt thr ret rev ex show ?thesis by (intro conjI)
qed

subsection \<open>The threshold mask\<close>



subsection \<open>Frames the library rejects\<close>

text \<open>
  Claim C5, as stated: every frame with a wrong number of channels makes the method
  fail. It does not: a frame of four channels per pixel is converted, its fourth channel
  unread, and the method returns a result.
\<close>

theorem detect_table_four_channels_counterexample:
  "length (hd (hd bgra_frame)) = 4
   \<and> detect_table (\<lambda>m. []) TableDetector_init bgra_frame = Inr (None, [[255]])"
  by code_simp

lemma bgr2hsv_px_take: "3 \<le> length p \<Longrightarrow> bgr2hsv_px (take 3 p) = bgr2hsv_px p"
  by (simp add: bgr2hsv_px_def)

lemma cvtColor_drop_fourth:
  assumes "\<forall>row \<in> set frame. \<forall>p \<in> set row. length p = 4"
  shows "cvtColor_BGR2HSV (map (map (take 3)) frame) = cvtColor_BGR2HSV frame"
proof (cases "frame = [] \<or> hd frame = []")
  case True
  then show ?thesis
    by (cases frame) (auto simp: cvtColor_BGR2HSV_def)
next
  case False
  then obtain row rows where fr: "frame = row # rows" and "row \<noteq> []" by (cases frame) auto
  then obtain p ps where row: "row = p # ps" by (cases row) auto
  from assms fr row have p4: "length p = 4" by simp
  have px: "map (map bgr2hsv_px) (map (map (take 3)) frame) = map (map bgr2hsv_px) frame"
  proof -
    have "\<And>r q. r \<in> set frame \<Longrightarrow> q \<in> set r \<Longrightarrow> bgr2hsv_px (take 3 q) = bgr2hsv_px q"
      using assms by (intro bgr2hsv_px_take) simp
    then show ?thesis by (simp add: comp_def cong: map_cong)
  qed
  show ?thesis
    using px p4 by (simp add: cvtColor_BGR2HSV_def fr row)
qed

lemma detect_table_cong:
  "cvtColor_BGR2HSV frame' = cvtColor_BGR2HSV frame \<Longrightarrow>
   detect_table findContours self frame' = detect_table findContours self frame"
  by (simp add: detect_table_def)

lemma detect_table_accepts:
  assumes "frame \<noteq> []" and "hd frame \<noteq> []"
    and "length (hd (hd frame)) = 3 \<or> length (hd (hd frame)) = 4"
  shows "\<exists>c m. detect_table findContours self frame = Inr (c, m)"
proof -
  from assms have cvt: "cvtColor_BGR2HSV frame = Inr (map (map bgr2hsv_px) frame)"
    by (auto simp: cvtColor_BGR2HSV_def)
  show ?thesis unfolding detect_table_unfold [OF cvt] by (simp split: list.split)
qed

text \<open>
  Claim C5, amended: for a frame with no rows, with no columns, or with a number of
  channels that is neither 3 nor 4, the method fails with the error of the library,
  whatever the contour extraction and the bounds are, and returns no result. Every
  frame with rows, columns and 3 or 4 channels is accepted: the method returns a result,
  and for a frame of four channels it is the result for the same frame without the
  fourth channel of each pixel.
\<close>

theorem detect_table_rejects_malformed:
  "(frame = [] \<or> hd frame = [] \<or> (length (hd (hd frame)) \<noteq> 3 \<and> length (hd (hd frame)) \<noteq> 4)
      \<longrightarrow> detect_table findContours self frame = Inl cv2_error)
   \<and> (frame \<noteq> [] \<and> hd frame \<noteq> [] \<and> (length (hd (hd frame)) = 3 \<or> length (hd (hd frame)) = 4)
      \<longrightarrow> (\<exists>c m. detect_table findContours self frame = Inr (c, m)))
   \<and> ((\<forall>row \<in> set frame. \<forall>p \<in> set row. length p = 4)
      \<longrightarrow> detect_table findContours self frame =
            detect_table findContours self (map (map (take 3)) frame))"
proof (intro conjI impI)
  assume "frame = [] \<or> hd frame = [] \<or> (length (hd (hd frame)) \<noteq> 3 \<and> length (hd (hd frame)) \<noteq> 4)"
  then have "cvtColor_BGR2HSV frame = Inl cv2_error"
    unfolding cvtColor_BGR2HSV_def by (simp only: if_True split: if_split) blast
  then show "detect_table findContours self frame = Inl cv2_error" by (rule detect_table_error)
next
  assume "frame \<noteq> [] \<and> hd frame \<noteq> [] \<and> (length (hd (hd frame)) = 3 \<or> length (hd (hd frame)) = 4)"
  then show "\<exists>c m. detect_table findContours self frame = Inr (c, m)"
    using detect_table_accepts by blast
next
  assume "\<forall>row \<in> set frame. \<forall>p \<in> set row. length p = 4"
  then have "cvtColor_BGR2HSV (map (map (take 3)) frame) = cvtColor_BGR2HSV frame"
    by (rule cvtColor_drop_fourth)
  then show "detect_table findContours self frame =
      detect_table findContours self (map (map (take 3)) frame)"
    by (rule detect_table_cong [symmetric])
qed

theorem detect_table_rejects_malformed_witness:
  "detect_table (\<lambda>m. []) TableDetector_init [] = Inl cv2_error
   \<and> detect_table (\<lambda>m. []) TableDetector_init [[], []] = Inl cv2_error
   \<and> length (hd (hd grey_frame)) = 1
   \<and> detect_table (\<lambda>m. []) TableDetector_init grey_frame = Inl cv2_error
   \<and> length (hd (hd bgra_frame)) = 4
   \<and> map (map (take 3)) bgra_frame = [[[34, 139, 34]]]
   \<and> detect_table (\<lambda>m. []) TableDetector_init bgra_frame
        = detect_table (\<lambda>m. []) TableDetector_init [[[34, 139, 34]]]
   \<and> detect_table (\<lambda>m. []) TableDetector_init bgra_frame = Inr (None, [[255]])"
proof -
  note rejects = detect_table_rejects_malformed [THEN conjunct1, THEN mp]
  note ignores = detect_table_rejects_malformed [THEN conjunct2, THEN conjunct2, THEN mp]
  have 1: "detect_table (\<lambda>m. []) TableDetector_init [] = Inl cv2_error"
    by (rule rejects) simp
  have 2: "detect_table (\<lambda>m. []) TableDetector_init [[], []] = Inl cv2_error"
    by (rule rejects) simp
  have g: "length (hd (hd grey_frame)) = 1" by code_simp
  then have "grey_frame = [] \<or> hd grey_frame = []
      \<or> (length (hd (hd grey_frame)) \<noteq> 3 \<and> length (hd (hd grey_frame)) \<noteq> 4)" by simp
  then have 3: "detect_table (\<lambda>m. []) TableDetector_init grey_frame = Inl cv2_error"
    by (rule rejects)
  have b: "length (hd (hd bgra_frame)) = 4" by code_simp
  have t: "map (map (take 3)) bgra_frame = [[[34, 139, 34]]]" by code_simp
  have four: "\<forall>row \<in> set bgra_frame. \<forall>p \<in> set row. length p = 4" by code_simp
  have "detect_table (\<lambda>m. []) TableDetector_init bgra_frame
      = detect_table (\<lambda>m. []) TableDetector_init (map (map (take 3)) bgra_frame)"
    using four by (rule ignores)
  then have 4: "detect_table (\<lambda>m. []) TableDetector_init bgra_frame
      = detect_table (\<lambda>m. []) TableDetector_init [[[34, 139, 34]]]"
    by (simp only: t)
  have 5: "detect_table (\<lambda>m. []) TableDetector_init bgra_frame = Inr (None, [[255]])"
    by code_simp
  from 1 2 g 3 b t 4 5 show ?thesis by (intro conjI)
qed

subsection \<open>Calls on the heap\<close>

lemma extends_refl: "extends h h"
  by (simp add: extends_def)

lemma extends_trans: "extends h h' \<Longrightarrow> extends h' h'' \<Longrightarrow> extends h h''"
  by (auto simp: extends_def)

lemma preserving_return: "preserving (return x)"
  by (simp add: preserving_def return_def extends_refl)

lemma preserving_raise: "preserving (raise e)"
  by (simp add: preserving_def raise_def extends_refl)

lemma preserving_new: "preserving (new v)"
  by (simp add: preserving_def new_def extends_def)

lemma preserving_bind:
  assumes "preserving m" and "\<And>x. preserving (f x)"
  shows "preserving (bind m f)"
  unfolding preserving_def
proof
  fix h
  obtain r h' where mh: "m h = (r, h')" by (cases "m h")
  from assms(1) have e1: "extends h h'" using mh unfolding preserving_def by (metis snd_conv)
  show "extends h (snd (bind m f h))"
  proof (cases r)
    case (Inl e)
    with mh e1 show ?thesis by (simp add: bind_def)
  next
    case (Inr x)
    from assms(2) [of x] have "extends h' (snd (f x h'))" unfolding preserving_def by blast
    with e1 have "extends h (snd (f x h'))" by (rule extends_trans)
    with mh Inr show ?thesis by (simp add: bind_def)
  qed
qed

lemma preserving_cases:
  "(\<And>h. m h = raise AttributeError h \<or> (\<exists>x. m h = return x h) \<or> (\<exists>e. m h = raise e h) \<or> (\<exists>v. m h = new v h))
   \<Longrightarrow> preserving m"
  unfolding preserving_def
  using preserving_return preserving_raise preserving_new
  unfolding preserving_def by metis

lemma preserving_get_lower_green: "preserving (get_lower_green self)"
  by (rule preserving_cases) (auto simp: get_lower_green_def split: option.split obj.split)

lemma preserving_get_upper_green: "preserving (get_upper_green self)"
  by (rule preserving_cases) (auto simp: get_upper_green_def split: option.split obj.split)

lemma preserving_cvtColor: "preserving (cv2_cvtColor_BGR2HSV src)"
  by (rule preserving_cases)
     (auto simp: cv2_cvtColor_BGR2HSV_def split: option.split obj.split sum.split)

lemma preserving_inRange: "preserving (cv2_inRange src lo hi)"
  by (rule preserving_cases) (auto simp: cv2_inRange_def split: option.split obj.split)

lemma preserving_np_ones: "preserving (np_ones_uint8 r c)"
  by (simp add: np_ones_uint8_def preserving_new)

lemma preserving_morphologyEx: "preserving (cv2_morphologyEx src op ker)"
  by (rule preserving_cases) (auto simp: cv2_morphologyEx_def split: option.split obj.split)

lemma preserving_findContours: "preserving (cv2_findContours fc img)"
  unfolding preserving_def
proof
  fix h
  have "snd (cv2_findContours fc img h) = h"
    by (simp add: cv2_findContours_def return_def raise_def split: option.split obj.split)
  then show "extends h (snd (cv2_findContours fc img h))" by (simp add: extends_refl)
qed

lemma preserving_detect_table_run: "preserving (detect_table_run findContours self frame)"
  unfolding detect_table_run_def
  by (intro preserving_bind preserving_cvtColor preserving_get_lower_green
      preserving_get_upper_green preserving_inRange preserving_np_ones
      preserving_morphologyEx preserving_findContours)
     (simp add: preserving_return Let_def split: list.split)

lemma detect_table_run_error:
  assumes "objs h frame = Some (Image f)" and "cvtColor_BGR2HSV f = Inl e"
  shows "detect_table_run findContours self frame h = (Inl e, h)"
  using assms by (simp add: detect_table_run_def bind_def cv2_cvtColor_BGR2HSV_def raise_def)

lemma detect_table_run_value:
  assumes self: "objs h self = Some (Detector lo_ref hi_ref)"
    and lo: "objs h lo_ref = Some (Bounds lo)"
    and hi: "objs h hi_ref = Some (Bounds hi)"
    and fr: "objs h frame = Some (Image f)"
    and alloc: "self < next_addr h" "lo_ref < next_addr h" "hi_ref < next_addr h"
    and cvt: "cvtColor_BGR2HSV f = Inr hsv"
    and ret: "detect_table findContours \<lparr>lower_green = lo, upper_green = hi\<rparr> f = Inr (c, m)"
  shows "\<exists>h'. detect_table_run findContours self frame h = (Inr (c, next_addr h + 4), h')
           \<and> objs h' (next_addr h + 4) = Some (Plane m) \<and> next_addr h' = next_addr h + 5"
proof -
  let ?n = "next_addr h"
  let ?cfg = "\<lparr>lower_green = lo, upper_green = hi\<rparr>"
  let ?thr = "inRange hsv lo hi"
  let ?k = "np_ones 5 5"
  let ?closed = "morphologyEx ?thr MORPH_CLOSE ?k"
  let ?opened = "morphologyEx ?closed MORPH_OPEN ?k"
  let ?h' = "h\<lparr>objs := (objs h)(?n \<mapsto> Hsv hsv, Suc ?n \<mapsto> Plane ?thr, Suc (Suc ?n) \<mapsto> Plane ?k,
      Suc (Suc (Suc ?n)) \<mapsto> Plane ?closed, Suc (Suc (Suc (Suc ?n))) \<mapsto> Plane ?opened),
      next_addr := Suc (Suc (Suc (Suc (Suc ?n))))\<rparr>"
  from alloc have ne: "self \<noteq> ?n" "lo_ref \<noteq> ?n" "hi_ref \<noteq> ?n" by simp_all
  have run: "detect_table_run findContours self frame h =
      (case findContours ?opened of
         [] \<Rightarrow> (Inr (None, ?n + 4), ?h')
       | c # cs \<Rightarrow>
           if contourArea (max_by contourArea c cs) < 1000 then (Inr (None, ?n + 4), ?h')
           else (Inr (Some (max_by contourArea c cs), ?n + 4), ?h'))"
    using self lo hi fr ne cvt
    by (simp add: detect_table_run_def bind_def cv2_cvtColor_BGR2HSV_def new_def
        get_lower_green_def get_upper_green_def return_def cv2_inRange_def np_ones_uint8_def
        cv2_morphologyEx_def cv2_findContours_def Let_def split: list.split)
  have pure: "detect_table findContours ?cfg f =
      (case findContours ?opened of
         [] \<Rightarrow> Inr (None, ?opened)
       | c # cs \<Rightarrow>
           if contourArea (max_by contourArea c cs) < 1000 then Inr (None, ?opened)
           else Inr (Some (max_by contourArea c cs), ?opened))"
    by (simp add: detect_table_def cvt Let_def split: list.split)
  have cell: "objs ?h' (?n + 4) = Some (Plane ?opened)" by simp
  have nxt: "next_addr ?h' = ?n + 5" by simp
  from ret pure run cell nxt show ?thesis
    by (auto split: list.splits if_splits)
qed

lemma detector_at_extends:
  assumes "extends h h'" and "detector_at h self = Some cfg"
  shows "detector_at h' self = Some cfg"
proof -
  from assms(2) obtain lo_ref hi_ref lo hi where
    d: "objs h self = Some (Detector lo_ref hi_ref)" "objs h lo_ref = Some (Bounds lo)"
       "objs h hi_ref = Some (Bounds hi)" "self < next_addr h" "lo_ref < next_addr h"
       "hi_ref < next_addr h" "cfg = \<lparr>lower_green = lo, upper_green = hi\<rparr>"
    unfolding detector_at_def
    by (auto split: option.splits obj.splits if_splits)
  from assms(1) d have "objs h' self = Some (Detector lo_ref hi_ref)" "objs h' lo_ref = Some (Bounds lo)"
       "objs h' hi_ref = Some (Bounds hi)" "self < next_addr h'" "lo_ref < next_addr h'"
       "hi_ref < next_addr h'"
    unfolding extends_def by simp_all
  with d(7) show ?thesis unfolding detector_at_def by simp
qed

lemma frame_at_extends:
  assumes "extends h h'" and "frame_at h a = Some f"
  shows "frame_at h' a = Some f"
proof -
  from assms(2) have d: "objs h a = Some (Image f)" "a < next_addr h"
    unfolding frame_at_def by (auto split: option.splits obj.splits if_splits)
  with assms(1) have "objs h' a = Some (Image f)" "a < next_addr h'"
    unfolding extends_def by simp_all
  then show ?thesis unfolding frame_at_def by simp
qed

lemma observed_run:
  assumes "detector_at h self = Some cfg" and "frame_at h frame = Some f"
  shows "observed (detect_table_run findContours self frame h) = Some (detect_table findContours cfg f)"
proof -
  from assms(1) obtain lo_ref hi_ref lo hi where
    d: "objs h self = Some (Detector lo_ref hi_ref)" "objs h lo_ref = Some (Bounds lo)"
       "objs h hi_ref = Some (Bounds hi)" "self < next_addr h" "lo_ref < next_addr h"
       "hi_ref < next_addr h" and cfg: "cfg = \<lparr>lower_green = lo, upper_green = hi\<rparr>"
    unfolding detector_at_def
    by (auto split: option.splits obj.splits if_splits)
  from assms(2) have fr: "objs h frame = Some (Image f)"
    unfolding frame_at_def by (auto split: option.splits obj.splits if_splits)
  show ?thesis
  proof (cases "cvtColor_BGR2HSV f")
    case (Inl e)
    from detect_table_run_error [OF fr Inl]
    have "detect_table_run findContours self frame h = (Inl e, h)" .
    moreover have "detect_table findContours cfg f = Inl e" using Inl by (rule detect_table_error)
    ultimately show ?thesis by (simp add: observed_def)
  next
    case (Inr hsv)
    have "\<exists>c m. detect_table findContours cfg f = Inr (c, m)"
      unfolding detect_table_unfold [OF Inr] by (simp split: list.split)
    then obtain c m where ret: "detect_table findContours cfg f = Inr (c, m)" by blast
    from detect_table_run_value [OF d(1,2,3) fr d(4,5,6) Inr ret [unfolded cfg]]
    obtain h' where "detect_table_run findContours self frame h = (Inr (c, next_addr h + 4), h')"
      "objs h' (next_addr h + 4) = Some (Plane m)" by blast
    with ret show ?thesis by (simp add: observed_def plane_at_def)
  qed
qed

lemma run_mask_allocated:
  assumes "detector_at h self = Some cfg" and "frame_at h frame = Some f"
    and run: "detect_table_run findContours self frame h = (Inr (c, a), h1)"
  shows "a < next_addr h1"
proof -
  from assms(1) obtain lo_ref hi_ref lo hi where
    d: "objs h self = Some (Detector lo_ref hi_ref)" "objs h lo_ref = Some (Bounds lo)"
       "objs h hi_ref = Some (Bounds hi)" "self < next_addr h" "lo_ref < next_addr h"
       "hi_ref < next_addr h" and cfg: "cfg = \<lparr>lower_green = lo, upper_green = hi\<rparr>"
    unfolding detector_at_def
    by (auto split: option.splits obj.splits if_splits)
  from assms(2) have fr: "objs h frame = Some (Image f)"
    unfolding frame_at_def by (auto split: option.splits obj.splits if_splits)
  show ?thesis
  proof (cases "cvtColor_BGR2HSV f")
    case (Inl e)
    from detect_table_run_error [OF fr Inl] run show ?thesis by simp
  next
    case (Inr hsv)
    have "\<exists>c m. detect_table findContours cfg f = Inr (c, m)"
      unfolding detect_table_unfold [OF Inr] by (simp split: list.split)
    then obtain c' m where ret: "detect_table findContours cfg f = Inr (c', m)" by blast
    from detect_table_run_value [OF d(1,2,3) fr d(4,5,6) Inr ret [unfolded cfg]]
    obtain h' where "detect_table_run findContours self frame h = (Inr (c', next_addr h + 4), h')"
      "next_addr h' = next_addr h + 5" by blast
    with run show ?thesis by simp
  qed
qed

lemma run_extends: "extends h (snd (detect_table_run findContours self frame h))"
  using preserving_detect_table_run [of findContours self frame] unfolding preserving_def by blast

lemma example_heap_ready:
  "detector_at example_heap 2 = Some TableDetector_init
   \<and> frame_at example_heap 3 = Some green_frame \<and> next_addr example_heap = 4"
  by code_simp

subsection \<open>No side effects\<close>

text \<open>
  Claim C9. A call of \<open>detect_table\<close> changes no object that existed before the call:
  the frame array, the detector and its two bound arrays are afterwards what they were
  before, and what the call returns (the error, or the contour and the content of the
  returned mask) is the value of the function \<open>detect_table\<close> of the bounds and of the
  frame's content alone.
\<close>

theorem detect_table_no_side_effects:
  "(\<forall>a < next_addr h. objs (snd (detect_table_run findContours self frame h)) a = objs h a)
   \<and> (detector_at h self = Some cfg \<and> frame_at h frame = Some f \<longrightarrow>
        detector_at (snd (detect_table_run findContours self frame h)) self = Some cfg
        \<and> frame_at (snd (detect_table_run findContours self frame h)) frame = Some f
        \<and> observed (detect_table_run findContours self frame h) =
            Some (detect_table findContours cfg f))"
proof (intro conjI impI)
  show "\<forall>a < next_addr h. objs (snd (detect_table_run findContours self frame h)) a = objs h a"
    using run_extends [of h findContours self frame] unfolding extends_def by (rule conjunct2)
next
  assume a: "detector_at h self = Some cfg \<and> frame_at h frame = Some f"
  then show "detector_at (snd (detect_table_run findContours self frame h)) self = Some cfg"
    using detector_at_extends [OF run_extends] by blast
next
  assume a: "detector_at h self = Some cfg \<and> frame_at h frame = Some f"
  then show "frame_at (snd (detect_table_run findContours self frame h)) frame = Some f"
    using frame_at_extends [OF run_extends] by blast
next
  assume a: "detector_at h self = Some cfg \<and> frame_at h frame = Some f"
  then show "observed (detect_table_run findContours self frame h) =
      Some (detect_table findContours cfg f)"
    using observed_run by blast
qed

theorem detect_table_no_side_effects_witness:
  "detector_at example_heap 2 = Some TableDetector_init
   \<and> frame_at example_heap 3 = Some green_frame
   \<and> objs (snd (detect_table_run (\<lambda>m. [square_at 0 40]) 2 3 example_heap)) 3 = Some (Image green_frame)
   \<and> objs (snd (detect_table_run (\<lambda>m. [square_at 0 40]) 2 3 example_heap)) 0 = Some (Bounds (35, 50, 50))
   \<and> detector_at (snd (detect_table_run (\<lambda>m. [square_at 0 40]) 2 3 example_heap)) 2
        = Some TableDetector_init
   \<and> observed (detect_table_run (\<lambda>m. [square_at 0 40]) 2 3 example_heap)
        = Some (Inr (Some (square_at 0 40), [[255, 255]]))"
proof -
  let ?fc = "\<lambda>m :: mask. [square_at 0 40]"
  let ?run = "detect_table_run ?fc 2 3 example_heap"
  have d: "detector_at example_heap 2 = Some TableDetector_init"
    and f: "frame_at example_heap 3 = Some green_frame"
    and n: "next_addr example_heap = 4"
    using example_heap_ready by simp_all
  have o3: "objs example_heap 3 = Some (Image green_frame)" by code_simp
  have o0: "objs example_heap 0 = Some (Bounds (35, 50, 50))" by code_simp
  have pure: "detect_table ?fc TableDetector_init green_frame = Inr (Some (square_at 0 40), [[255, 255]])"
    by code_simp
  note inst = detect_table_no_side_effects [of example_heap ?fc 2 3 TableDetector_init green_frame]
  from inst have unchanged: "\<forall>a < next_addr example_heap. objs (snd ?run) a = objs example_heap a"
    by (rule conjunct1)
  have u3: "objs (snd ?run) 3 = Some (Image green_frame)"
    using unchanged [rule_format, of 3] n o3 by simp
  have u0: "objs (snd ?run) 0 = Some (Bounds (35, 50, 50))"
    using unchanged [rule_format, of 0] n o0 by simp
  from inst have "detector_at example_heap 2 = Some TableDetector_init
        \<and> frame_at example_heap 3 = Some green_frame \<longrightarrow>
      detector_at (snd ?run) 2 = Some TableDetector_init
      \<and> frame_at (snd ?run) 3 = Some green_frame
      \<and> observed ?run = Some (detect_table ?fc TableDetector_init green_frame)"
    by (rule conjunct2)
  from mp [OF this conjI [OF d f]]
  have after: "detector_at (snd ?run) 2 = Some TableDetector_init"
    and obs: "observed ?run = Some (detect_table ?fc TableDetector_init green_frame)"
    by simp_all
  from obs pure have obs': "observed ?run = Some (Inr (Some (square_at 0 40), [[255, 255]]))"
    by simp
  from d f u3 u0 after obs' show ?thesis by (intro conjI)
qed

subsection \<open>Determinism\<close>

text \<open>
  Claim C8. Two calls of \<open>detect_table\<close> one after the other, on the same detector and
  the same frame, return the same: the same error, or the same contour (or none both
  times) and masks of the same content, which is the value of \<open>detect_table\<close> of the
  bounds and the frame; and the mask returned by the first call is still intact after
  the second.
\<close>

theorem detect_table_deterministic:
  assumes "detector_at h self = Some cfg" and "frame_at h frame = Some f"
    and "detect_table_run findContours self frame h = (r1, h1)"
    and "detect_table_run findContours self frame h1 = (r2, h2)"
  shows "observed (r2, h2) = observed (r1, h1)
         \<and> observed (r1, h1) = Some (detect_table findContours cfg f)
         \<and> observed (r1, h2) = observed (r1, h1)"
proof -
  have e1: "extends h h1" using run_extends [of h findContours self frame] assms(3) by simp
  have e2: "extends h1 h2" using run_extends [of h1 findContours self frame] assms(4) by simp
  have d1: "detector_at h1 self = Some cfg" using e1 assms(1) by (rule detector_at_extends)
  have f1: "frame_at h1 frame = Some f" using e1 assms(2) by (rule frame_at_extends)
  have o1: "observed (r1, h1) = Some (detect_table findContours cfg f)"
    using observed_run [OF assms(1,2), of findContours] assms(3) by simp
  have o2: "observed (r2, h2) = Some (detect_table findContours cfg f)"
    using observed_run [OF d1 f1, of findContours] assms(4) by simp
  have keep: "observed (r1, h2) = observed (r1, h1)"
  proof (cases r1)
    case (Inl e)
    then show ?thesis by (simp add: observed_def)
  next
    case (Inr ca)
    obtain c a where ca: "ca = (c, a)" by (cases ca)
    from o1 Inr ca obtain m where m: "objs h1 a = Some (Plane m)"
      by (auto simp: observed_def plane_at_def split: option.splits obj.splits)
    have "a < next_addr h1"
      using run_mask_allocated [OF assms(1,2), of findContours c a h1] assms(3) Inr ca by simp
    with e2 have "objs h2 a = objs h1 a" unfolding extends_def by simp
    with Inr ca show ?thesis by (simp add: observed_def plane_at_def)
  qed
  from o1 o2 keep show ?thesis by simp
qed

theorem detect_table_deterministic_witness:
  "detector_at example_heap 2 = Some TableDetector_init
   \<and> frame_at example_heap 3 = Some green_frame
   \<and> fst (detect_table_run (\<lambda>m. [square_at 0 40]) 2 3 example_heap) = Inr (Some (square_at 0 40), 8)
   \<and> fst (detect_table_run (\<lambda>m. [square_at 0 40]) 2 3
            (snd (detect_table_run (\<lambda>m. [square_at 0 40]) 2 3 example_heap)))
        = Inr (Some (square_at 0 40), 13)
   \<and> observed (detect_table_run (\<lambda>m. [square_at 0 40]) 2 3
            (snd (detect_table_run (\<lambda>m. [square_at 0 40]) 2 3 example_heap)))
        = observed (detect_table_run (\<lambda>m. [square_at 0 40]) 2 3 example_heap)
   \<and> observed (detect_table_run (\<lambda>m. [square_at 0 40]) 2 3 example_heap)
        = Some (Inr (Some (square_at 0 40), [[255, 255]]))"
proof -
  let ?fc = "\<lambda>m :: mask. [square_at 0 40]"
  let ?run1 = "detect_table_run ?fc 2 3 example_heap"
  let ?run2 = "detect_table_run ?fc 2 3 (snd ?run1)"
  have d: "detector_at example_heap 2 = Some TableDetector_init"
    and f: "frame_at example_heap 3 = Some green_frame"
    using example_heap_ready by simp_all
  have a1: "fst ?run1 = Inr (Some (square_at 0 40), 8)" by code_simp
  have a2: "fst ?run2 = Inr (Some (square_at 0 40), 13)" by code_simp
  have pure: "detect_table ?fc TableDetector_init green_frame = Inr (Some (square_at 0 40), [[255, 255]])"
    by code_simp
  have r1: "?run1 = (fst ?run1, snd ?run1)" by simp
  have r2: "detect_table_run ?fc 2 3 (snd ?run1) = (fst ?run2, snd ?run2)" by simp
  from detect_table_deterministic [OF d f r1 r2]
  have "observed ?run2 = observed ?run1"
    and "observed ?run1 = Some (detect_table ?fc TableDetector_init green_frame)"
    by simp_all
  with pure have "observed ?run2 = observed ?run1"
    and "observed ?run1 = Some (Inr (Some (square_at 0 40), [[255, 255]]))"
    by simp_all
  with d f a1 a2 show ?thesis by (intro conjI)
qed

end
